theory Spec2Isabelle
  imports Complex_Main "HOL-Library.Multiset"
begin

section \<open>Values of the Python program\<close>

text \<open>
  The program under study is \<^verbatim>\<open>braid-llm-kit/tools/llm_autofix.py\<close>. Its fixes are
  whatever \<^verbatim>\<open>json.loads\<close> returns, so the model works on decoded JSON values. A Python
  \<^verbatim>\<open>str\<close> is a \<open>string\<close>, one \<open>char\<close> per code point (code points below 256). A
  \<^verbatim>\<open>dict\<close> is an association list read with \<open>map_of\<close>; the keys of a decoded
  object are strings and pairwise distinct. A \<^verbatim>\<open>float\<close> carries its exact value as a
  rational, or one of the three special values.
\<close>

datatype pyfloat = FFinite rat | FPosInf | FNegInf | FNaN

datatype json =
    JNull
  | JBool bool
  | JInt int
  | JFloat pyfloat
  | JStr string
  | JList "json list"
  | JDict "(string \<times> json) list"

text \<open>The exceptions the program can raise; \<open>Inl\<close> of a result is a raised exception.\<close>

datatype error =
    AttributeError
  | TypeError
  | KeyError
  | ValueError
  | OverflowError
  | JSONDecodeError
  | RecursionError
  | OSError

section \<open>Built-in operations used by \<^verbatim>\<open>apply_fixes\<close>\<close>

subsection \<open>\<^verbatim>\<open>int(x)\<close>\<close>

text \<open>
  \<^verbatim>\<open>int\<close> of a string: surrounding whitespace is stripped (tab, line feed, vertical
  tab, form feed, carriage return, space, next line \<^verbatim>\<open>\x85\<close> and no-break space
  \<^verbatim>\<open>\xa0\<close>; the separators \<^verbatim>\<open>\x1c\<close> to \<^verbatim>\<open>\x1f\<close> are not stripped), one sign is
  allowed, then decimal digits follow, where single underscores may separate digits.
  More than 4300 digits raise \<^verbatim>\<open>ValueError\<close> (the default of
  \<^verbatim>\<open>sys.int_info.default_max_str_digits\<close>).
\<close>

definition py_isspace :: "char \<Rightarrow> bool" where
  "py_isspace c =
     (let n = (of_char c :: nat)
      in (9 \<le> n \<and> n \<le> 13) \<or> n = 32 \<or> n = 133 \<or> n = 160)"

definition py_isdigit :: "char \<Rightarrow> bool" where
  "py_isdigit c = (let n = (of_char c :: nat) in 48 \<le> n \<and> n \<le> 57)"

definition strip :: "string \<Rightarrow> string" where
  "strip s = rev (dropWhile py_isspace (rev (dropWhile py_isspace s)))"

fun digits_ok :: "bool \<Rightarrow> string \<Rightarrow> bool" where
  "digits_ok prev [] = prev"
| "digits_ok prev (c # cs) =
     (if py_isdigit c then digits_ok True cs
      else if c = CHR ''_'' \<and> prev then digits_ok False cs
      else False)"

definition digits_value :: "string \<Rightarrow> int" where
  "digits_value ds = foldl (\<lambda>a c. 10 * a + (int (of_char c) - 48)) 0 (filter py_isdigit ds)"

definition unsigned_of_str :: "string \<Rightarrow> error + int" where
  "unsigned_of_str ds =
     (if digits_ok False ds \<and> length (filter py_isdigit ds) \<le> 4300
      then Inr (digits_value ds) else Inl ValueError)"

definition int_of_str :: "string \<Rightarrow> error + int" where
  "int_of_str s =
     (case strip s of
        [] \<Rightarrow> Inl ValueError
      | c # cs \<Rightarrow>
          if c = CHR ''-'' then map_sum id uminus (unsigned_of_str cs)
          else if c = CHR ''+'' then unsigned_of_str cs
          else unsigned_of_str (c # cs))"

text \<open>
  \<^verbatim>\<open>int\<close> of any decoded value: an integer is itself, a boolean is 0 or 1, a float is
  truncated towards zero (\<^verbatim>\<open>nan\<close> and the infinities raise), a string is parsed, and
  \<^verbatim>\<open>None\<close>, lists and dicts raise \<^verbatim>\<open>TypeError\<close>.
\<close>

fun py_int :: "json \<Rightarrow> error + int" where
  "py_int (JInt i) = Inr i"
| "py_int (JBool b) = Inr (if b then 1 else 0)"
| "py_int (JFloat (FFinite r)) = Inr (if 0 \<le> r then \<lfloor>r\<rfloor> else \<lceil>r\<rceil>)"
| "py_int (JFloat FNaN) = Inl ValueError"
| "py_int (JFloat FPosInf) = Inl OverflowError"
| "py_int (JFloat FNegInf) = Inl OverflowError"
| "py_int (JStr s) = int_of_str s"
| "py_int JNull = Inl TypeError"
| "py_int (JList xs) = Inl TypeError"
| "py_int (JDict d) = Inl TypeError"

subsection \<open>\<^verbatim>\<open>key in x\<close> and \<^verbatim>\<open>x[key]\<close> for a string key\<close>

definition str_contains :: "string \<Rightarrow> string \<Rightarrow> bool" where
  "str_contains s sub =
     list_ex (\<lambda>i. take (length sub) (drop i s) = sub) [0 ..< Suc (length s)]"

text \<open>
  \<^verbatim>\<open>key in x\<close>: key membership for a dict, substring test for a string, element
  membership for a list; any other value is not a container and raises \<^verbatim>\<open>TypeError\<close>.
\<close>

fun py_in :: "string \<Rightarrow> json \<Rightarrow> error + bool" where
  "py_in k (JDict d) = Inr (map_of d k \<noteq> None)"
| "py_in k (JStr s) = Inr (str_contains s k)"
| "py_in k (JList xs) = Inr (List.member xs (JStr k))"
| "py_in k JNull = Inl TypeError"
| "py_in k (JBool b) = Inl TypeError"
| "py_in k (JInt i) = Inl TypeError"
| "py_in k (JFloat x) = Inl TypeError"

text \<open>\<^verbatim>\<open>x[key]\<close> with a string key: only a dict can be indexed by a string.\<close>

fun py_getitem :: "json \<Rightarrow> string \<Rightarrow> error + json" where
  "py_getitem (JDict d) k = (case map_of d k of Some v \<Rightarrow> Inr v | None \<Rightarrow> Inl KeyError)"
| "py_getitem x k = Inl TypeError"

text \<open>\<^verbatim>\<open>f.get(key, default)\<close>: only a dict has the method.\<close>

fun py_get :: "json \<Rightarrow> string \<Rightarrow> json \<Rightarrow> error + json" where
  "py_get (JDict d) k dflt = Inr (case map_of d k of Some v \<Rightarrow> v | None \<Rightarrow> dflt)"
| "py_get x k dflt = Inl AttributeError"

subsection \<open>Slicing\<close>

text \<open>
  The index a slice bound \<^verbatim>\<open>pos\<close> denotes in a sequence of length \<open>n\<close>: a negative
  bound counts from the end, and every bound is clamped into \<open>0..n\<close>.
\<close>

definition slice_index :: "int \<Rightarrow> nat \<Rightarrow> nat" where
  "slice_index pos n = (if pos < 0 then nat (max 0 (pos + int n)) else min (nat pos) n)"

text \<open>\<^verbatim>\<open>src[:pos] + text + src[pos:]\<close>\<close>

definition splice :: "string \<Rightarrow> int \<Rightarrow> string \<Rightarrow> string" where
  "splice src pos text =
     take (slice_index pos (length src)) src @ text @ drop (slice_index pos (length src)) src"

section \<open>The Edit Applier: \<^verbatim>\<open>apply_fixes\<close>\<close>

text \<open>
  One pass of the first loop: \<open>Inr None\<close> when the fix is skipped, \<open>Inr (Some (pos, text))\<close>
  when a pair is appended to \<^verbatim>\<open>inserts\<close>.
\<close>

definition fix_insert :: "json \<Rightarrow> error + (int \<times> json) option" where
  "fix_insert f =
     (case py_get f ''edit'' (JDict []) of
        Inl e \<Rightarrow> Inl e
      | Inr edit \<Rightarrow>
          (case py_in ''insert'' edit of
             Inl e \<Rightarrow> Inl e
           | Inr False \<Rightarrow> Inr None
           | Inr True \<Rightarrow>
               (case py_in ''at'' edit of
                  Inl e \<Rightarrow> Inl e
                | Inr False \<Rightarrow> Inr None
                | Inr True \<Rightarrow>
                    (case py_getitem edit ''at'' of
                       Inl e \<Rightarrow> Inl e
                     | Inr a \<Rightarrow>
                         (case py_int a of
                            Inl e \<Rightarrow> Inl e
                          | Inr pos \<Rightarrow>
                              (case py_getitem edit ''insert'' of
                                 Inl e \<Rightarrow> Inl e
                               | Inr text \<Rightarrow> Inr (Some (pos, text))))))))"

fun collect_inserts :: "json list \<Rightarrow> (int \<times> json) list \<Rightarrow> error + (int \<times> json) list" where
  "collect_inserts [] inserts = Inr inserts"
| "collect_inserts (f # fixes) inserts =
     (case fix_insert f of
        Inl e \<Rightarrow> Inl e
      | Inr None \<Rightarrow> collect_inserts fixes inserts
      | Inr (Some ins) \<Rightarrow> collect_inserts fixes (inserts @ [ins]))"

text \<open>
  \<^verbatim>\<open>inserts.sort(key=lambda x:x[0], reverse=True)\<close>: a stable sort into descending
  order of position; pairs with equal positions keep their relative order.
\<close>

definition sort_desc :: "(int \<times> 'a) list \<Rightarrow> (int \<times> 'a) list" where
  "sort_desc inserts = sort_key (\<lambda>x. - fst x) inserts"

text \<open>The second loop; concatenating a non-string to a string raises \<^verbatim>\<open>TypeError\<close>.\<close>

fun splice_all :: "string \<Rightarrow> (int \<times> json) list \<Rightarrow> error + string" where
  "splice_all src [] = Inr src"
| "splice_all src ((pos, JStr text) # inserts) = splice_all (splice src pos text) inserts"
| "splice_all src ((pos, other) # inserts) = Inl TypeError"

definition apply_fixes :: "string \<Rightarrow> json list \<Rightarrow> error + string" where
  "apply_fixes src fixes =
     (case collect_inserts fixes [] of
        Inl e \<Rightarrow> Inl e
      | Inr inserts \<Rightarrow> splice_all src (sort_desc inserts))"

section \<open>The Diagnostic Parser\<close>

text \<open>
  \<^verbatim>\<open>out.splitlines()\<close>: the text is cut at every line boundary (line feed, carriage
  return, carriage return followed by line feed, vertical tab, form feed, the separators
  \<^verbatim>\<open>\x1c\<close>, \<^verbatim>\<open>\x1d\<close>, \<^verbatim>\<open>\x1e\<close>, and next line \<^verbatim>\<open>\x85\<close>); the boundaries are dropped and
  a boundary at the very end opens no further line.
\<close>

definition is_linebreak :: "char \<Rightarrow> bool" where
  "is_linebreak c =
     (let n = (of_char c :: nat) in (10 \<le> n \<and> n \<le> 13) \<or> (28 \<le> n \<and> n \<le> 30) \<or> n = 133)"

fun splitlines_from :: "string \<Rightarrow> string \<Rightarrow> string list" where
  "splitlines_from line [] = (if line = [] then [] else [line])"
| "splitlines_from line [c] = (if is_linebreak c then [line] else [line @ [c]])"
| "splitlines_from line (c # d # cs) =
     (if c = CHR 0x0D \<and> d = CHR 0x0A then line # splitlines_from [] cs
      else if is_linebreak c then line # splitlines_from [] (d # cs)
      else splitlines_from (line @ [c]) (d # cs))"

definition splitlines :: "string \<Rightarrow> string list" where
  "splitlines out = splitlines_from [] out"

text \<open>
  The values \<^verbatim>\<open>fixes.extend(x)\<close> appends: the elements of a list, the characters of a
  string, the keys of a dict; any other value is not iterable and raises \<^verbatim>\<open>TypeError\<close>.
\<close>

fun py_iter :: "json \<Rightarrow> error + json list" where
  "py_iter (JList xs) = Inr xs"
| "py_iter (JStr s) = Inr (map (\<lambda>c. JStr [c]) s)"
| "py_iter (JDict d) = Inr (map (\<lambda>kv. JStr (fst kv)) d)"
| "py_iter JNull = Inl TypeError"
| "py_iter (JBool b) = Inl TypeError"
| "py_iter (JInt i) = Inl TypeError"
| "py_iter (JFloat x) = Inl TypeError"

text \<open>
  The decoder \<^verbatim>\<open>json.loads\<close> belongs to the Python library, and what it returns for a
  number depends on floating-point conversion and on interpreter limits. It is a
  parameter \<open>loads\<close> of the model: \<open>Inr\<close> of the decoded value, or \<open>Inl\<close> of the
  exception it raises (\<open>JSONDecodeError\<close> for a text that is not JSON).

  The body of the \<^verbatim>\<open>try\<close> block for one line, given the fixes accumulated so far.
\<close>

definition try_line :: "(string \<Rightarrow> error + json) \<Rightarrow> string \<Rightarrow> json list \<Rightarrow> error + json list" where
  "try_line loads line fixes =
     (case loads line of
        Inl e \<Rightarrow> Inl e
      | Inr d \<Rightarrow>
          (case py_get d ''fixes'' (JList []) of
             Inl e \<Rightarrow> Inl e
           | Inr x \<Rightarrow>
               (case py_iter x of
                  Inl e \<Rightarrow> Inl e
                | Inr items \<Rightarrow> Inr (fixes @ items))))"

text \<open>The loop over the lines; the handler catches \<^verbatim>\<open>json.JSONDecodeError\<close> only.\<close>

fun parse_lines :: "(string \<Rightarrow> error + json) \<Rightarrow> string list \<Rightarrow> json list \<Rightarrow> error + json list" where
  "parse_lines loads [] fixes = Inr fixes"
| "parse_lines loads (line # rest) fixes =
     (case try_line loads line fixes of
        Inl e \<Rightarrow> (if e = JSONDecodeError then parse_lines loads rest fixes else Inl e)
      | Inr fixes' \<Rightarrow> parse_lines loads rest fixes')"

definition parse_fixes :: "(string \<Rightarrow> error + json) \<Rightarrow> string \<Rightarrow> error + json list" where
  "parse_fixes loads out = parse_lines loads (splitlines out) []"

section \<open>The Fix-Loop Controller: \<^verbatim>\<open>check_and_fix\<close>\<close>

text \<open>
  The two external programs and the backing store are functions of what they are given.
  \<open>formatter T src\<close> is the run of \<^verbatim>\<open>tools/braid-fmt\<close> on the buffer and
  \<open>validator T n file\<close> the run of \<^verbatim>\<open>tools/braid-check\<close> in round \<open>n\<close> on a backing
  store that holds \<open>file\<close>; each answers \<open>Inr (rc, out)\<close>, the exit status and the
  standard output, or \<open>Inl e\<close> when \<^verbatim>\<open>run\<close> raises (the program cannot be started).
  \<open>write_store T n src\<close> is the write of the buffer to the backing store in round \<open>n\<close>:
  \<open>Inr ()\<close> when it succeeds, \<open>Inl e\<close> when it raises (the file cannot be opened or
  written, or the buffer cannot be encoded). A run is assumed to return, and the first
  read of the backing store is assumed to succeed.
\<close>

record tools =
  formatter :: "string \<Rightarrow> error + int \<times> string"
  validator :: "nat \<Rightarrow> string \<Rightarrow> error + int \<times> string"
  write_store :: "nat \<Rightarrow> string \<Rightarrow> error + unit"

text \<open>
  How a run of the controller ends: \<open>Succeeded n\<close> prints \<^verbatim>\<open>clean after n round(s)\<close>,
  \<open>FailedNoFixes out\<close> prints the validator's output \<open>out\<close>, \<open>FailedMaxRounds\<close> prints
  \<^verbatim>\<open>max rounds reached\<close>, and \<open>Raised e\<close> is an exception that leaves the function.
\<close>

datatype outcome = Succeeded nat | FailedNoFixes string | FailedMaxRounds | Raised error

record result =
  outcome :: outcome
  rounds_used :: nat
  buffer :: string

fun return_code :: "outcome \<Rightarrow> error + int" where
  "return_code (Succeeded n) = Inr 0"
| "return_code (FailedNoFixes out) = Inr 1"
| "return_code FailedMaxRounds = Inr 1"
| "return_code (Raised e) = Inl e"

text \<open>
  The \<^verbatim>\<open>while rounds < 10\<close> loop, entered with the counter \<open>rounds\<close> and the buffer
  \<open>src\<close>: each round counts, writes the buffer to the backing store, runs the validator,
  parses its output and applies the fixes. The result records the counter and the buffer
  at the moment the run ends.
\<close>

function fix_loop :: "(string \<Rightarrow> error + json) \<Rightarrow> tools \<Rightarrow> nat \<Rightarrow> string \<Rightarrow> result" where
  "fix_loop loads T rounds src =
     (if rounds < 10 then
        (case write_store T (Suc rounds) src of
           Inl e \<Rightarrow> \<lparr>outcome = Raised e, rounds_used = Suc rounds, buffer = src\<rparr>
         | Inr u \<Rightarrow>
        (case validator T (Suc rounds) src of
           Inl e \<Rightarrow> \<lparr>outcome = Raised e, rounds_used = Suc rounds, buffer = src\<rparr>
         | Inr (rc, out) \<Rightarrow>
             if rc = 0
             then \<lparr>outcome = Succeeded (Suc rounds), rounds_used = Suc rounds, buffer = src\<rparr>
             else
               (case parse_fixes loads out of
                  Inl e \<Rightarrow> \<lparr>outcome = Raised e, rounds_used = Suc rounds, buffer = src\<rparr>
                | Inr fixes \<Rightarrow>
                    if fixes = []
                    then \<lparr>outcome = FailedNoFixes out, rounds_used = Suc rounds, buffer = src\<rparr>
                    else
                      (case apply_fixes src fixes of
                         Inl e \<Rightarrow> \<lparr>outcome = Raised e, rounds_used = Suc rounds, buffer = src\<rparr>
                       | Inr src' \<Rightarrow> fix_loop loads T (Suc rounds) src'))))
      else \<lparr>outcome = FailedMaxRounds, rounds_used = rounds, buffer = src\<rparr>)"
  by pat_completeness auto
termination
  by (relation "measure (\<lambda>(loads, T, rounds, src). 10 - rounds)") auto

declare fix_loop.simps [simp del]

text \<open>
  \<^verbatim>\<open>check_and_fix\<close> on a backing store that holds \<open>src\<close>: the formatting step, then
  the loop.
\<close>

definition check_and_fix :: "(string \<Rightarrow> error + json) \<Rightarrow> tools \<Rightarrow> string \<Rightarrow> result" where
  "check_and_fix loads T src =
     (case formatter T src of
        Inl e \<Rightarrow> \<lparr>outcome = Raised e, rounds_used = 0, buffer = src\<rparr>
      | Inr (rc, formatted) \<Rightarrow>
          fix_loop loads T 0 (if rc = 0 \<and> formatted \<noteq> [] then formatted else src))"

section \<open>Notions used to state the properties\<close>

text \<open>
  A fix \<open>f\<close> is an insertion edit of \<open>text\<close> at the integer \<open>pos\<close>: it is an object whose
  \<^verbatim>\<open>edit\<close> is an object with \<^verbatim>\<open>at\<close> the integer and \<^verbatim>\<open>insert\<close> the string. Other
  keys may be present.
\<close>

definition insertion_edit :: "json \<Rightarrow> int \<Rightarrow> string \<Rightarrow> bool" where
  "insertion_edit f pos text =
     (case f of
        JDict d \<Rightarrow>
          (case map_of d ''edit'' of
             Some (JDict e) \<Rightarrow>
               map_of e ''at'' = Some (JInt pos) \<and> map_of e ''insert'' = Some (JStr text)
           | _ \<Rightarrow> False)
      | _ \<Rightarrow> False)"

text \<open>The fix \<^verbatim>\<open>{"edit": {"insert": text, "at": pos}}\<close>.\<close>

definition edit_fix :: "int \<Rightarrow> string \<Rightarrow> json" where
  "edit_fix pos text = JDict [(''edit'', JDict [(''insert'', JStr text), (''at'', JInt pos)])]"

text \<open>Splicing a sequence of (position, text) pairs one after the other, in the order given.\<close>

definition splice_edits :: "string \<Rightarrow> (int \<times> string) list \<Rightarrow> string" where
  "splice_edits src es = foldl (\<lambda>b (p, t). splice b p t) src es"

text \<open>The text \<open>t\<close> inserted at the offset \<open>q\<close> of the buffer \<open>b\<close>.\<close>

definition insert_at :: "string \<Rightarrow> nat \<Rightarrow> string \<Rightarrow> string" where
  "insert_at b q t = take q b @ t @ drop q b"

text \<open>
  The reference single-pass splice of the specification: the edits are taken in ascending
  order of position (a stable sort), and each is inserted at its position plus the
  cumulative shift, the total length of the texts inserted before it.
\<close>

fun shifted_pass :: "string \<Rightarrow> nat \<Rightarrow> (nat \<times> string) list \<Rightarrow> string" where
  "shifted_pass buf shift [] = buf"
| "shifted_pass buf shift ((p, t) # es) =
     shifted_pass (insert_at buf (p + shift) t) (shift + length t) es"

definition reference_splice :: "string \<Rightarrow> (nat \<times> string) list \<Rightarrow> string" where
  "reference_splice src es = shifted_pass src 0 (sort_key fst es)"

text \<open>
  Inserting every edit of a list at its own position, the last edit of the list first:
  the order in which \<^verbatim>\<open>apply_fixes\<close> works through an ascending list.
\<close>

definition insert_all :: "(nat \<times> string) list \<Rightarrow> string \<Rightarrow> string" where
  "insert_all es b = foldr (\<lambda>(p, t) b. insert_at b p t) es b"

text \<open>
  A fix that the first loop of \<^verbatim>\<open>apply_fixes\<close> skips: it is an object, and its
  \<^verbatim>\<open>edit\<close> is absent, or is an object that lacks the key \<^verbatim>\<open>insert\<close> or the key
  \<^verbatim>\<open>at\<close>, or is a string or a list that does not contain both \<^verbatim>\<open>insert\<close> and
  \<^verbatim>\<open>at\<close>.
\<close>

definition lacks_insertion :: "json \<Rightarrow> bool" where
  "lacks_insertion f =
     (case f of
        JDict d \<Rightarrow>
          (case map_of d ''edit'' of
             None \<Rightarrow> True
           | Some (JDict e) \<Rightarrow> map_of e ''insert'' = None \<or> map_of e ''at'' = None
           | Some (JStr s) \<Rightarrow> \<not> (str_contains s ''insert'' \<and> str_contains s ''at'')
           | Some (JList xs) \<Rightarrow>
               \<not> (List.member xs (JStr ''insert'') \<and> List.member xs (JStr ''at''))
           | Some _ \<Rightarrow> False)
      | _ \<Rightarrow> False)"

text \<open>
  A stand-in for \<^verbatim>\<open>json.loads\<close> in the worked examples. It decodes the JSON lines the
  examples use as \<^verbatim>\<open>json.loads\<close> does, and answers \<open>JSONDecodeError\<close> on every
  other line, which is what \<^verbatim>\<open>json.loads\<close> does on the plain-text lines of the
  examples. The general theorems hold for every decoder.
\<close>

definition sample_loads :: "string \<Rightarrow> error + json" where
  \<open>sample_loads line =
     (if line = ''{"fixes": [{"edit": {"insert": " ", "at": 0}}]}''
      then Inr (JDict [(''fixes'', JList [edit_fix 0 '' ''])])
      else if line = ''{"fixes": [{"message": "unused variable"}]}''
      then Inr (JDict [(''fixes'', JList [JDict [(''message'', JStr ''unused variable'')]])])
      else if line = ''{"fixes": [{"edit": {"insert": " ", "at": 0}}, {"edit": null}]}''
      then Inr (JDict [(''fixes'', JList [edit_fix 0 '' '', JDict [(''edit'', JNull)]])])
      else if line = ''42'' then Inr (JInt 42)
      else Inl JSONDecodeError)\<close>

text \<open>
  Tools for the worked examples: the formatter succeeds and echoes the buffer, every
  write succeeds, and the validator answers the exit status \<open>rc\<close> and the output \<open>out\<close>
  in every round.
\<close>

definition sample_tools :: "int \<Rightarrow> string \<Rightarrow> tools" where
  "sample_tools rc out =
     \<lparr>formatter = (\<lambda>src. Inr (0, src)), validator = (\<lambda>n file. Inr (rc, out)),
      write_store = (\<lambda>n src. Inr ())\<rparr>"

section \<open>Properties of the Edit Applier\<close>

subsection \<open>What \<^verbatim>\<open>apply_fixes\<close> computes on insertion edits\<close>

lemma insertion_editE:
  assumes "insertion_edit f p t"
  obtains d e where "f = JDict d" "map_of d ''edit'' = Some (JDict e)"
    "map_of e ''at'' = Some (JInt p)" "map_of e ''insert'' = Some (JStr t)"
  using assms unfolding insertion_edit_def
  by (simp split: json.split_asm option.split_asm)

lemma fix_insert_insertion_edit:
  assumes "insertion_edit f p t"
  shows "fix_insert f = Inr (Some (p, JStr t))"
proof -
  from assms obtain d e where "f = JDict d" "map_of d ''edit'' = Some (JDict e)"
    "map_of e ''at'' = Some (JInt p)" "map_of e ''insert'' = Some (JStr t)"
    by (rule insertion_editE)
  then show ?thesis by (simp add: fix_insert_def)
qed

lemma collect_inserts_insertions:
  "list_all2 (\<lambda>f (p, t). insertion_edit f p t) fxs es \<Longrightarrow>
   collect_inserts fxs acc = Inr (acc @ map (\<lambda>(p, t). (p, JStr t)) es)"
proof (induction fxs es arbitrary: acc rule: list_all2_induct)
  case Nil
  then show ?case by simp
next
  case (Cons f fxs e es)
  obtain p t where e: "e = (p, t)" by (cases e)
  with Cons.hyps have "fix_insert f = Inr (Some (p, JStr t))"
    by (simp add: fix_insert_insertion_edit)
  with Cons.IH [of "acc @ [(p, JStr t)]"] e show ?case by simp
qed

lemma splice_all_strings:
  "splice_all src (map (\<lambda>(p, t). (p, JStr t)) es) = Inr (splice_edits src es)"
  unfolding splice_edits_def
  by (induction es arbitrary: src) (auto split: prod.splits)

lemma sort_desc_map_JStr:
  "sort_desc (map (\<lambda>(p, t). (p, JStr t)) es) = map (\<lambda>(p, t). (p, JStr t)) (sort_desc es)"
proof -
  let ?g = "\<lambda>(p, t). (p, JStr t)"
  have ins: "insort_key (\<lambda>x. - fst x) (?g x) (map ?g ys) = map ?g (insort_key (\<lambda>x. - fst x) x ys)"
    for x :: "int \<times> string" and ys
    by (induction ys) (auto split: prod.splits)
  show ?thesis
    unfolding sort_desc_def by (induction es) (simp_all add: ins)
qed

lemma apply_fixes_insertions:
  assumes "list_all2 (\<lambda>f (p, t). insertion_edit f p t) fxs es"
  shows "apply_fixes src fxs = Inr (splice_edits src (sort_desc es))"
  using collect_inserts_insertions [OF assms, of "[]"]
  by (simp add: apply_fixes_def sort_desc_map_JStr splice_all_strings)

lemma length_splice: "length (splice b p t) = length b + length t"
  by (simp add: splice_def)

lemma length_splice_edits:
  "length (splice_edits src es) = length src + sum_list (map (\<lambda>(p, t). length t) es)"
  unfolding splice_edits_def
  by (induction es arbitrary: src) (auto simp: length_splice)

lemma sum_list_sort_desc:
  "sum_list (map g (sort_desc es)) = (sum_list (map g es) :: nat)"
proof -
  have "mset (map g (sort_desc es)) = mset (map g es)"
    by (simp add: sort_desc_def)
  then show ?thesis by (metis sum_mset_sum_list)
qed

lemma splice_beyond_end: "int (length b) < p \<Longrightarrow> splice b p t = b @ t"
  by (simp add: splice_def slice_index_def)

lemma splice_negative:
  "p < 0 \<Longrightarrow> splice b p t = take (length b - nat (- p)) b @ t @ drop (length b - nat (- p)) b"
proof -
  assume "p < 0"
  then have "slice_index p (length b) = length b - nat (- p)"
    by (simp add: slice_index_def)
  then show ?thesis by (simp add: splice_def)
qed

subsection \<open>Out-of-range and negative positions\<close>

text \<open>
  Claim C1 says that an edit whose position is greater than the length of the buffer it is
  applied against makes \<^verbatim>\<open>apply_fixes\<close> signal an error. It does not: on the buffer
  \<^verbatim>\<open>abc\<close> the edit that inserts \<^verbatim>\<open>X\<close> at position 5 is accepted and the text is
  appended.
\<close>

theorem apply_fixes_out_of_range_counterexample:
  "apply_fixes ''abc'' [edit_fix 5 ''X''] = Inr ''abcX''"
  by (simp add: apply_fixes_def edit_fix_def fix_insert_def sort_desc_def splice_def
      slice_index_def)

text \<open>
  Claim C1, amended. For every buffer and every sequence of insertion edits, whatever their
  integer positions, \<^verbatim>\<open>apply_fixes\<close> signals no error: it returns the buffer obtained by
  splicing the edits one after the other in descending order of position, and a splice
  whose position is greater than the length of the buffer it is applied against appends
  the text at the end of that buffer (the position is clamped).
\<close>

theorem apply_fixes_never_rejects_position:
  assumes "list_all2 (\<lambda>f (p, t). insertion_edit f p t) fxs es"
  shows "apply_fixes src fxs = Inr (splice_edits src (sort_desc es)) \<and>
         (\<forall>b p t. int (length b) < p \<longrightarrow> splice b p t = b @ t)"
  using apply_fixes_insertions [OF assms, of src] by (simp add: splice_beyond_end)

theorem apply_fixes_never_rejects_position_witness:
  "apply_fixes ''abc'' [edit_fix 5 ''X'', edit_fix 9 ''Y''] = Inr ''abcYX''"
  using apply_fixes_never_rejects_position
    [of "[edit_fix 5 ''X'', edit_fix 9 ''Y'']" "[(5, ''X''), (9, ''Y'')]" "''abc''"]
  by (simp add: insertion_edit_def edit_fix_def sort_desc_def splice_edits_def splice_def
      slice_index_def)

text \<open>
  Claim C10. For every buffer, an insertion edit whose \<^verbatim>\<open>at\<close> is a negative integer
  \<open>p\<close> is accepted without error, and its text is spliced in \<open>- p\<close> characters before
  the end of the buffer (at the start when the buffer is shorter than that).
\<close>

theorem apply_fixes_negative_position:
  assumes "insertion_edit f p t" and "p < 0"
  shows "apply_fixes src [f] =
           Inr (take (length src - nat (- p)) src @ t @ drop (length src - nat (- p)) src)"
proof -
  have "list_all2 (\<lambda>f (p, t). insertion_edit f p t) [f] [(p, t)]"
    using assms(1) by simp
  then have "apply_fixes src [f] = Inr (splice_edits src (sort_desc [(p, t)]))"
    by (rule apply_fixes_insertions)
  then show ?thesis
    using assms(2) by (simp add: sort_desc_def splice_edits_def splice_negative)
qed

theorem apply_fixes_negative_position_witness:
  "apply_fixes ''abc'' [edit_fix (- 1) ''X''] = Inr ''abXc''"
  using apply_fixes_negative_position [of "edit_fix (- 1) ''X''" "- 1" "''X''" "''abc''"]
  by (simp add: insertion_edit_def edit_fix_def)

subsection \<open>Offset stability\<close>

lemma length_insert_at: "length (insert_at b q t) = length b + length t"
  by (simp add: insert_at_def)

lemma splice_nat: "splice b (int q) t = insert_at b q t"
  by (simp add: splice_def slice_index_def insert_at_def min_def)

lemma insert_at_commute_append:
  "insert_at (insert_at (x @ y) (length x + k) t) (length x) u =
   insert_at (insert_at (x @ y) (length x) u) (length x + k + length u) t"
  by (simp add: insert_at_def)

lemma insert_at_commute:
  assumes "q \<le> p" and "q \<le> length b"
  shows "insert_at (insert_at b p t) q u = insert_at (insert_at b q u) (p + length u) t"
proof -
  have b: "b = take q b @ drop q b" by simp
  have q: "length (take q b) = q" using assms(2) by simp
  have p: "p = q + (p - q)" using assms(1) by simp
  show ?thesis
    using insert_at_commute_append [of "take q b" "drop q b" "p - q" t u]
    unfolding q using p by simp
qed

lemma insert_all_simps [simp]:
  "insert_all [] b = b"
  "insert_all ((p, t) # es) b = insert_at (insert_all es b) p t"
  by (simp_all add: insert_all_def)

lemma length_insert_all: "length b \<le> length (insert_all es b)"
  by (induction es) (auto simp: length_insert_at)

lemma insert_all_push:
  assumes "\<forall>(p, t) \<in> set es. q \<le> p" and "q \<le> length b"
  shows "insert_all (map (\<lambda>(p, t). (p + length u, t)) es) (insert_at b q u) =
         insert_at (insert_all es b) q u"
  using assms
proof (induction es)
  case Nil
  then show ?case by simp
next
  case (Cons e es)
  obtain p t where e: "e = (p, t)" by (cases e)
  from Cons.prems e have qp: "q \<le> p" by simp
  have len: "q \<le> length (insert_all es b)"
    using Cons.prems(2) length_insert_all [of b es] by linarith
  have "insert_all (map (\<lambda>(p, t). (p + length u, t)) (e # es)) (insert_at b q u) =
        insert_at (insert_at (insert_all es b) q u) (p + length u) t"
    using Cons e by simp
  also have "\<dots> = insert_at (insert_at (insert_all es b) p t) q u"
    using insert_at_commute [OF qp len] by simp
  finally show ?case using e by simp
qed

lemma shifted_pass_insert_all:
  assumes "sorted (map fst es)" and "\<forall>(p, t) \<in> set es. p + s \<le> length b"
  shows "shifted_pass b s es = insert_all (map (\<lambda>(p, t). (p + s, t)) es) b"
  using assms
proof (induction es arbitrary: b s)
  case Nil
  then show ?case by simp
next
  case (Cons e es)
  obtain q u where e: "e = (q, u)" by (cases e)
  let ?b' = "insert_at b (q + s) u"
  have sorted: "sorted (map fst es)" and ge: "\<forall>(p, t) \<in> set es. q \<le> p"
    using Cons.prems(1) e by auto
  have valid: "\<forall>(p, t) \<in> set es. p + (s + length u) \<le> length ?b'"
    using Cons.prems(2) by (auto simp: length_insert_at)
  have "shifted_pass b s (e # es) = shifted_pass ?b' (s + length u) es"
    using e by simp
  also have "\<dots> = insert_all (map (\<lambda>(p, t). (p + (s + length u), t)) es) ?b'"
    using Cons.IH [OF sorted valid] .
  also have "\<dots> = insert_all (map (\<lambda>(p, t). (p + length u, t)) (map (\<lambda>(p, t). (p + s, t)) es)) ?b'"
    by (simp add: case_prod_unfold add.assoc comp_def)
  also have "\<dots> = insert_at (insert_all (map (\<lambda>(p, t). (p + s, t)) es) b) (q + s) u"
  proof (rule insert_all_push)
    show "\<forall>(p, t) \<in> set (map (\<lambda>(p, t). (p + s, t)) es). q + s \<le> p"
      using ge by auto
    show "q + s \<le> length b"
      using Cons.prems(2) e by simp
  qed
  finally show ?case using e by simp
qed

lemma splice_edits_rev:
  "splice_edits src (rev (map (\<lambda>(p, t). (int p, t)) es)) = insert_all es src"
  unfolding splice_edits_def insert_all_def
  by (induction es) (auto simp: splice_nat)

lemma sort_desc_distinct:
  assumes "mset es' = mset es" and "distinct (map fst es)"
  shows "sort_desc (map (\<lambda>(p, t). (int p, t)) es') =
         rev (map (\<lambda>(p, t). (int p, t)) (sort_key fst es))"
  unfolding sort_desc_def
proof (rule sort_key_inj_key_eq)
  let ?g = "\<lambda>(p, t). (int p, t)"
  show "mset (map ?g es') = mset (rev (map ?g (sort_key fst es)))"
    using assms(1) by simp
  have "set es' = set es"
    using assms(1) by (rule mset_eq_setD)
  moreover have "inj_on fst (set es)"
    using assms(2) by (simp add: distinct_map)
  ultimately show "inj_on (\<lambda>x. - fst x) (set (map ?g es'))"
    by (fastforce simp: inj_on_def)
  have "sorted (map fst (sort_key fst es))"
    by simp
  then have "sorted_wrt (\<lambda>x y. fst x \<le> fst y) (sort_key fst es)"
    by (simp add: sorted_map del: sorted_sort_key)
  then have "sorted_wrt (\<lambda>x y. - int (fst y) \<le> - int (fst x)) (sort_key fst es)"
    by (rule sorted_wrt_mono_rel [rotated]) simp
  then show "sorted (map (\<lambda>x. - fst x) (rev (map ?g (sort_key fst es))))"
    by (simp add: rev_map [symmetric] sorted_wrt_rev sorted_wrt_map case_prod_unfold comp_def)
qed

text \<open>
  Claim C2 says that, for every sequence of insertion edits with valid positions and every
  order in which they are listed, \<^verbatim>\<open>apply_fixes\<close> agrees with the reference splice.
  With two edits at the same position it does not: the stable descending sort applies
  \<^verbatim>\<open>X\<close> first, so \<^verbatim>\<open>Y\<close> lands in front of it, where the reference gives \<^verbatim>\<open>X\<close>
  then \<^verbatim>\<open>Y\<close>; and listing the same two edits in the other order changes the result
  of \<^verbatim>\<open>apply_fixes\<close>.
\<close>

theorem apply_fixes_ties_counterexample:
  "apply_fixes ''abc'' [edit_fix 1 ''X'', edit_fix 1 ''Y''] = Inr ''aYXbc'' \<and>
   reference_splice ''abc'' [(1, ''X''), (1, ''Y'')] = ''aXYbc'' \<and>
   apply_fixes ''abc'' [edit_fix 1 ''Y'', edit_fix 1 ''X''] = Inr ''aXYbc''"
  by (simp add: apply_fixes_def edit_fix_def fix_insert_def sort_desc_def splice_def
      slice_index_def reference_splice_def insert_at_def)

text \<open>
  Claim C2, amended. For every buffer and every sequence of insertion edits whose positions
  are valid for the buffer and pairwise distinct, listed in any order (\<open>es'\<close> is any
  permutation of \<open>es\<close>), \<^verbatim>\<open>apply_fixes\<close> returns the buffer that the reference
  single-pass splice with cumulative shift computes; in particular the buffer \<^verbatim>\<open>abc\<close>
  with \<^verbatim>\<open>Y\<close> inserted at 0 and \<^verbatim>\<open>Z\<close> at 3 becomes \<^verbatim>\<open>YabcZ\<close>.
\<close>

theorem apply_fixes_offset_stable:
  assumes "list_all2 (\<lambda>f (p, t). insertion_edit f (int p) t) fxs es'"
    and "mset es' = mset es"
    and "distinct (map fst es)"
    and "\<forall>(p, t) \<in> set es. p \<le> length src"
  shows "apply_fixes src fxs = Inr (reference_splice src es) \<and>
         apply_fixes ''abc'' [edit_fix 0 ''Y'', edit_fix 3 ''Z''] = Inr ''YabcZ''"
proof -
  let ?g = "\<lambda>(p, t). (int p, t)"
  have "list_all2 (\<lambda>f (p, t). insertion_edit f p t) fxs (map ?g es')"
    using assms(1) by (simp add: list_all2_map2 case_prod_unfold)
  then have "apply_fixes src fxs = Inr (splice_edits src (sort_desc (map ?g es')))"
    by (rule apply_fixes_insertions)
  also have "sort_desc (map ?g es') = rev (map ?g (sort_key fst es))"
    using assms(2,3) by (rule sort_desc_distinct)
  also have "splice_edits src \<dots> = insert_all (sort_key fst es) src"
    by (rule splice_edits_rev)
  also have "\<dots> = shifted_pass src 0 (sort_key fst es)"
    using shifted_pass_insert_all [of "sort_key fst es" 0 src] assms(4) by simp
  finally have "apply_fixes src fxs = Inr (reference_splice src es)"
    by (simp add: reference_splice_def)
  moreover have "apply_fixes ''abc'' [edit_fix 0 ''Y'', edit_fix 3 ''Z''] = Inr ''YabcZ''"
    by (simp add: apply_fixes_def edit_fix_def fix_insert_def sort_desc_def splice_def
        slice_index_def)
  ultimately show ?thesis by simp
qed

theorem apply_fixes_offset_stable_witness:
  "apply_fixes ''abcd'' [edit_fix 1 ''X'', edit_fix 4 ''ZZ'', edit_fix 2 ''Y''] =
     Inr (reference_splice ''abcd'' [(4, ''ZZ''), (2, ''Y''), (1, ''X'')]) \<and>
   reference_splice ''abcd'' [(4, ''ZZ''), (2, ''Y''), (1, ''X'')] = ''aXbYcdZZ''"
  using apply_fixes_offset_stable
    [of "[edit_fix 1 ''X'', edit_fix 4 ''ZZ'', edit_fix 2 ''Y'']"
        "[(1, ''X''), (4, ''ZZ''), (2, ''Y'')]"
        "[(4, ''ZZ''), (2, ''Y''), (1, ''X'')]" "''abcd''"]
  by (simp add: insertion_edit_def edit_fix_def reference_splice_def insert_at_def)

subsection \<open>Empty edit sequence and length\<close>

text \<open>
  Claim C7. Applying the empty edit sequence returns the buffer unchanged, for every
  buffer.
\<close>

theorem apply_fixes_empty: "apply_fixes src [] = Inr src"
  by (simp add: apply_fixes_def sort_desc_def)

text \<open>
  Claim C6. For every buffer and every sequence of insertion edits whose positions are all
  valid for the buffer (between 0 and its length), \<^verbatim>\<open>apply_fixes\<close> returns a buffer
  whose length is the length of the input plus the sum of the lengths of the inserted
  texts. The edits are taken in any order: the statement holds for every sequence.
\<close>

theorem apply_fixes_length:
  assumes "list_all2 (\<lambda>f (p, t). insertion_edit f p t) fxs es"
    and "\<forall>(p, t) \<in> set es. 0 \<le> p \<and> p \<le> int (length src)"
  shows "\<exists>r. apply_fixes src fxs = Inr r \<and>
           length r = length src + sum_list (map (\<lambda>(p, t). length t) es)"
  using apply_fixes_insertions [OF assms(1), of src]
  by (simp add: length_splice_edits sum_list_sort_desc)

theorem apply_fixes_length_witness:
  "\<exists>r. apply_fixes ''abc'' [edit_fix 3 ''Z'', edit_fix 0 ''YY''] = Inr r \<and> length r = 6"
  using apply_fixes_length
    [of "[edit_fix 3 ''Z'', edit_fix 0 ''YY'']" "[(3, ''Z''), (0, ''YY'')]" "''abc''"]
  by (simp add: insertion_edit_def edit_fix_def eval_nat_numeral)

section \<open>Properties of the Diagnostic Parser\<close>

lemma parse_lines_undecodable_line:
  "loads line = Inl JSONDecodeError \<Longrightarrow>
   parse_lines loads (line # rest) fixes = parse_lines loads rest fixes"
  by (simp add: try_line_def)

lemma parse_fixes_sample_edit:
  \<open>parse_fixes sample_loads ''{"fixes": [{"edit": {"insert": " ", "at": 0}}]}'' =
     Inr [edit_fix 0 '' '']\<close>
  by (simp add: parse_fixes_def splitlines_def is_linebreak_def sample_loads_def try_line_def)

lemma parse_fixes_sample_message:
  \<open>parse_fixes sample_loads ''{"fixes": [{"message": "unused variable"}]}'' =
     Inr [JDict [(''message'', JStr ''unused variable'')]]\<close>
  by (simp add: parse_fixes_def splitlines_def is_linebreak_def sample_loads_def try_line_def)

lemma parse_fixes_sample_text:
  "parse_fixes sample_loads ''error: unexpected token'' = Inr []"
  by (simp add: parse_fixes_def splitlines_def is_linebreak_def sample_loads_def try_line_def)

text \<open>
  Claim C3 says that a line which does not decode as a structured record contributes no
  edits and causes no error, so that parsing the output never fails. The code drops a
  line on which \<^verbatim>\<open>json.loads\<close> raises \<^verbatim>\<open>JSONDecodeError\<close>, but a line that is valid
  JSON and not an object (a number, a string, a list, \<^verbatim>\<open>null\<close>) is decoded, and the call
  \<^verbatim>\<open>d.get\<close> on the decoded value raises \<^verbatim>\<open>AttributeError\<close>, which the handler does not
  catch: the parse fails at that line, whatever the fixes found so far and whatever
  follows. The output line \<^verbatim>\<open>42\<close> is such a line.
\<close>

theorem parse_lines_non_object_raises:
  assumes "loads line = Inr v" and "\<forall>d. v \<noteq> JDict d"
  shows "parse_lines loads (line # rest) fixes = Inl AttributeError"
  using assms by (cases v) (simp_all add: try_line_def)

theorem parse_lines_non_object_raises_witness:
  "parse_fixes sample_loads ''42'' = Inl AttributeError"
  using parse_lines_non_object_raises [of sample_loads "''42''" "JInt 42" "[]" "[]"]
  by (simp add: parse_fixes_def splitlines_def is_linebreak_def sample_loads_def)

section \<open>Properties of the Fix-Loop Controller\<close>

subsection \<open>Which fixes the Edit Applier skips, and when it raises nothing\<close>

lemma fix_insert_skips_iff: "fix_insert f = Inr None \<longleftrightarrow> lacks_insertion f"
proof (cases f)
  case (JDict d)
  show ?thesis
  proof (cases "map_of d ''edit''")
    case None
    with JDict show ?thesis by (simp add: fix_insert_def lacks_insertion_def)
  next
    case (Some v)
    with JDict show ?thesis
      by (cases v)
        (auto simp: fix_insert_def lacks_insertion_def split: bool.splits sum.splits option.splits)
  qed
qed (simp_all add: fix_insert_def lacks_insertion_def)

lemma collect_inserts_lacks_insertion:
  "\<forall>f \<in> set fxs. lacks_insertion f \<Longrightarrow> collect_inserts fxs acc = Inr acc"
  by (induction fxs) (simp_all add: fix_insert_skips_iff [symmetric])

lemma apply_fixes_lacks_insertion:
  "\<forall>f \<in> set fxs. lacks_insertion f \<Longrightarrow> apply_fixes src fxs = Inr src"
  by (simp add: apply_fixes_def collect_inserts_lacks_insertion sort_desc_def)

lemma collect_inserts_mixed:
  "\<forall>f \<in> set fxs. (\<exists>p t. insertion_edit f p t) \<or> lacks_insertion f \<Longrightarrow>
   \<exists>es. \<forall>acc. collect_inserts fxs acc = Inr (acc @ map (\<lambda>(p, t). (p, JStr t)) es)"
proof (induction fxs)
  case Nil
  have "\<forall>acc. collect_inserts [] acc = Inr (acc @ map (\<lambda>(p, t). (p, JStr t)) [])"
    by simp
  then show ?case by blast
next
  case (Cons f fxs)
  then obtain es where es:
    "\<And>acc. collect_inserts fxs acc = Inr (acc @ map (\<lambda>(p, t). (p, JStr t)) es)"
    by auto
  from Cons.prems consider p t where "insertion_edit f p t" | "lacks_insertion f"
    by auto
  then show ?case
  proof cases
    case 1
    then have "fix_insert f = Inr (Some (p, JStr t))"
      by (rule fix_insert_insertion_edit)
    then have "\<forall>acc. collect_inserts (f # fxs) acc =
        Inr (acc @ map (\<lambda>(p, t). (p, JStr t)) ((p, t) # es))"
      by (simp add: es)
    then show ?thesis by blast
  next
    case 2
    then have "fix_insert f = Inr None"
      by (simp add: fix_insert_skips_iff)
    then have "\<forall>acc. collect_inserts (f # fxs) acc = Inr (acc @ map (\<lambda>(p, t). (p, JStr t)) es)"
      by (simp add: es)
    then show ?thesis by blast
  qed
qed

lemma apply_fixes_mixed:
  assumes "\<forall>f \<in> set fxs. (\<exists>p t. insertion_edit f p t) \<or> lacks_insertion f"
  shows "\<exists>src'. apply_fixes src fxs = Inr src'"
proof -
  from collect_inserts_mixed [OF assms] obtain es where
    "collect_inserts fxs [] = Inr ([] @ map (\<lambda>(p, t). (p, JStr t)) es)"
    by blast
  then show ?thesis
    by (simp add: apply_fixes_def sort_desc_map_JStr splice_all_strings)
qed

lemma apply_fixes_prepend: "apply_fixes b [edit_fix 0 t] = Inr (t @ b)"
  by (simp add: apply_fixes_def edit_fix_def fix_insert_def sort_desc_def splice_def
      slice_index_def)

subsection \<open>The loop on its own\<close>

lemma rounds_used_fix_loop: "rounds \<le> 10 \<Longrightarrow> rounds_used (fix_loop loads T rounds src) \<le> 10"
proof (induction loads T rounds src rule: fix_loop.induct)
  case (1 loads T rounds src)
  show ?case
  proof (cases "rounds < 10")
    case True
    then show ?thesis
      using "1.IH" by (subst fix_loop.simps) (auto split: sum.splits prod.splits)
  next
    case False
    with "1.prems" show ?thesis by (subst fix_loop.simps) simp
  qed
qed

lemma fix_loop_continues:
  assumes "rounds < 10" and "write_store T (Suc rounds) src = Inr ()"
    and "validator T (Suc rounds) src = Inr (rc, out)" and "rc \<noteq> 0"
    and "parse_fixes loads out = Inr fxs" and "fxs \<noteq> []"
    and "apply_fixes src fxs = Inr src'"
  shows "fix_loop loads T rounds src = fix_loop loads T (Suc rounds) src'"
  using assms by (subst fix_loop.simps) simp

lemma fix_loop_exhausts_run:
  assumes "\<forall>k<10. write_store T (Suc k) (bs k) = Inr () \<and>
             (\<exists>rc out fxs. validator T (Suc k) (bs k) = Inr (rc, out) \<and> rc \<noteq> 0 \<and>
                parse_fixes loads out = Inr fxs \<and> fxs \<noteq> [] \<and>
                apply_fixes (bs k) fxs = Inr (bs (Suc k)))"
    and "rounds \<le> 10"
  shows "fix_loop loads T rounds (bs rounds) =
           \<lparr>outcome = FailedMaxRounds, rounds_used = 10, buffer = bs 10\<rparr>"
  using assms(2)
proof (induction rounds rule: inc_induct)
  case base
  show ?case by (subst fix_loop.simps) simp
next
  case (step n)
  from assms(1) step.hyps(2) obtain rc out fxs where
    "write_store T (Suc n) (bs n) = Inr ()" "validator T (Suc n) (bs n) = Inr (rc, out)"
    "rc \<noteq> 0" "parse_fixes loads out = Inr fxs" "fxs \<noteq> []"
    "apply_fixes (bs n) fxs = Inr (bs (Suc n))"
    by blast
  with step.hyps(2) have "fix_loop loads T n (bs n) = fix_loop loads T (Suc n) (bs (Suc n))"
    by (rule fix_loop_continues)
  with step.IH show ?case by simp
qed

lemma fix_loop_exhausts:
  assumes "\<forall>n buf. write_store T n buf = Inr () \<and>
             (\<exists>rc out fxs src'. validator T n buf = Inr (rc, out) \<and> rc \<noteq> 0 \<and>
                parse_fixes loads out = Inr fxs \<and> fxs \<noteq> [] \<and> apply_fixes buf fxs = Inr src')"
    and "rounds \<le> 10"
  shows "outcome (fix_loop loads T rounds src) = FailedMaxRounds \<and>
         rounds_used (fix_loop loads T rounds src) = 10"
  using assms(2)
proof (induction rounds arbitrary: src rule: inc_induct)
  case base
  show ?case by (subst (1 2) fix_loop.simps) simp
next
  case (step n)
  from assms(1) obtain rc out fxs src' where
    "write_store T (Suc n) src = Inr ()" "validator T (Suc n) src = Inr (rc, out)"
    "rc \<noteq> 0" "parse_fixes loads out = Inr fxs" "fxs \<noteq> []" "apply_fixes src fxs = Inr src'"
    by blast
  with step.hyps(2) have "fix_loop loads T n src = fix_loop loads T (Suc n) src'"
    by (rule fix_loop_continues)
  with step.IH [of src'] show ?case by simp
qed

lemma check_and_fix_formatted:
  "formatter T src = Inr (rc, formatted) \<Longrightarrow>
   check_and_fix loads T src =
     fix_loop loads T 0 (if rc = 0 \<and> formatted \<noteq> [] then formatted else src)"
  by (simp add: check_and_fix_def)

lemma parse_fixes_sample_edit_null:
  \<open>parse_fixes sample_loads ''{"fixes": [{"edit": {"insert": " ", "at": 0}}, {"edit": null}]}'' =
     Inr [edit_fix 0 '' '', JDict [(''edit'', JNull)]]\<close>
  by (simp add: parse_fixes_def splitlines_def is_linebreak_def sample_loads_def try_line_def)

lemma parse_fixes_sample_edit_then_number:
  \<open>parse_fixes sample_loads
     (''{"fixes": [{"edit": {"insert": " ", "at": 0}}]}'' @ [CHR 0x0A] @ ''42'') =
     Inl AttributeError\<close>
  by (simp add: parse_fixes_def splitlines_def is_linebreak_def sample_loads_def try_line_def)

subsection \<open>The formatting step\<close>

text \<open>
  Claim C8. When the formatter runs and answers the exit status \<open>rc\<close> and the output
  \<open>formatted\<close>, the controller enters the loop, at round counter 0, with \<open>formatted\<close>
  as the buffer if \<open>rc\<close> is 0 and \<open>formatted\<close> is not empty, and with the original
  buffer in every other case (non-zero status or empty output).
\<close>

theorem check_and_fix_formatting_step:
  assumes "formatter T src = Inr (rc, formatted)"
  shows "(rc = 0 \<and> formatted \<noteq> [] \<longrightarrow>
            check_and_fix loads T src = fix_loop loads T 0 formatted) \<and>
         (rc \<noteq> 0 \<or> formatted = [] \<longrightarrow>
            check_and_fix loads T src = fix_loop loads T 0 src)"
  using assms by (auto simp: check_and_fix_def)

theorem check_and_fix_formatting_step_witness:
  "check_and_fix sample_loads
     \<lparr>formatter = (\<lambda>src. Inr (1, ''fn main'')), validator = (\<lambda>n file. Inr (0, [])),
      write_store = (\<lambda>n src. Inr ())\<rparr>
     ''fn  main'' =
   \<lparr>outcome = Succeeded 1, rounds_used = 1, buffer = ''fn  main''\<rparr>"
  using check_and_fix_formatting_step
    [of "\<lparr>formatter = (\<lambda>src. Inr (1, ''fn main'')), validator = (\<lambda>n file. Inr (0, [])),
          write_store = (\<lambda>n src. Inr ())\<rparr>"
        "''fn  main''" 1 "''fn main''" sample_loads]
  by (simp add: fix_loop.simps)

subsection \<open>Termination and the round budget\<close>

text \<open>
  Claim C4 says that a validator which always rejects and always offers at least one edit
  makes the controller end with \<open>FailedMaxRounds\<close> after exactly 10 rounds. It does not
  when something else stands beside the edit. A validator that in every round offers the
  edit inserting a space at 0 together with a fix whose \<^verbatim>\<open>edit\<close> is \<^verbatim>\<open>null\<close> makes
  \<^verbatim>\<open>apply_fixes\<close> raise \<^verbatim>\<open>TypeError\<close> in round 1; one that prints the line of that edit
  followed by the line \<^verbatim>\<open>42\<close> makes the parse raise \<^verbatim>\<open>AttributeError\<close> in round 1.
\<close>

theorem edit_with_junk_counterexample:
  \<open>check_and_fix sample_loads
     (sample_tools 1 ''{"fixes": [{"edit": {"insert": " ", "at": 0}}, {"edit": null}]}'') ''abc'' =
     \<lparr>outcome = Raised TypeError, rounds_used = 1, buffer = ''abc''\<rparr> \<and>
   check_and_fix sample_loads
     (sample_tools 1 (''{"fixes": [{"edit": {"insert": " ", "at": 0}}]}'' @ [CHR 0x0A] @ ''42''))
     ''abc'' =
     \<lparr>outcome = Raised AttributeError, rounds_used = 1, buffer = ''abc''\<rparr>\<close>
proof -
  have "apply_fixes ''abc'' [edit_fix 0 '' '', JDict [(''edit'', JNull)]] = Inl TypeError"
    by (simp add: apply_fixes_def edit_fix_def fix_insert_def)
  then show ?thesis
    by (simp add: check_and_fix_def sample_tools_def fix_loop.simps
        parse_fixes_sample_edit_null parse_fixes_sample_edit_then_number [simplified])
qed

text \<open>
  Claim C4, amended. Whatever the formatter, the validator and the backing store do, the
  controller ends with a round counter of at most 10, the budget. If the formatter can be
  run, every write succeeds, and the validator always rejects and always prints output
  that parses, without an exception, to a list of fixes holding at least one insertion
  edit and otherwise only insertion edits and fixes that the Edit Applier skips, then the
  controller ends with \<open>FailedMaxRounds\<close> after exactly 10 rounds. More generally, for the
  buffers \<open>bs 0\<close>, \<open>bs 1\<close>, ... of a run: if in each of the rounds 1 to 10 the write
  succeeds, the validator rejects, and its output parses to a non-empty list of fixes that
  \<^verbatim>\<open>apply_fixes\<close> turns the buffer of the round into the next buffer with, the controller
  ends with \<open>FailedMaxRounds\<close>, the counter 10 and the buffer \<open>bs 10\<close>.
\<close>

theorem check_and_fix_round_budget:
  "rounds_used (check_and_fix loads T src) \<le> 10 \<and>
   ((\<exists>r. formatter T src = Inr r) \<and>
    (\<forall>n buf. write_store T n buf = Inr () \<and>
       (\<exists>rc out fxs. validator T n buf = Inr (rc, out) \<and> rc \<noteq> 0 \<and>
          parse_fixes loads out = Inr fxs \<and>
          (\<exists>f \<in> set fxs. \<exists>p t. insertion_edit f p t) \<and>
          (\<forall>f \<in> set fxs. (\<exists>p t. insertion_edit f p t) \<or> lacks_insertion f))) \<longrightarrow>
    outcome (check_and_fix loads T src) = FailedMaxRounds \<and>
    rounds_used (check_and_fix loads T src) = 10) \<and>
   (formatter T src = Inr (frc, formatted) \<and>
    bs 0 = (if frc = 0 \<and> formatted \<noteq> [] then formatted else src) \<and>
    (\<forall>k<10. write_store T (Suc k) (bs k) = Inr () \<and>
       (\<exists>rc out fxs. validator T (Suc k) (bs k) = Inr (rc, out) \<and> rc \<noteq> 0 \<and>
          parse_fixes loads out = Inr fxs \<and> fxs \<noteq> [] \<and>
          apply_fixes (bs k) fxs = Inr (bs (Suc k)))) \<longrightarrow>
    check_and_fix loads T src =
      \<lparr>outcome = FailedMaxRounds, rounds_used = 10, buffer = bs 10\<rparr>)"
proof (intro conjI impI)
  show "rounds_used (check_and_fix loads T src) \<le> 10"
    by (auto simp: check_and_fix_def rounds_used_fix_loop split: sum.splits)
next
  assume H: "(\<exists>r. formatter T src = Inr r) \<and>
    (\<forall>n buf. write_store T n buf = Inr () \<and>
       (\<exists>rc out fxs. validator T n buf = Inr (rc, out) \<and> rc \<noteq> 0 \<and>
          parse_fixes loads out = Inr fxs \<and>
          (\<exists>f \<in> set fxs. \<exists>p t. insertion_edit f p t) \<and>
          (\<forall>f \<in> set fxs. (\<exists>p t. insertion_edit f p t) \<or> lacks_insertion f)))"
  then obtain rc formatted where fmt: "formatter T src = Inr (rc, formatted)"
    by auto
  have "\<forall>n buf. write_store T n buf = Inr () \<and>
          (\<exists>rc out fxs src'. validator T n buf = Inr (rc, out) \<and> rc \<noteq> 0 \<and>
             parse_fixes loads out = Inr fxs \<and> fxs \<noteq> [] \<and> apply_fixes buf fxs = Inr src')"
  proof (intro allI)
    fix n buf
    from H obtain rc out fxs where w: "write_store T n buf = Inr ()"
      and v: "validator T n buf = Inr (rc, out)" "rc \<noteq> 0" "parse_fixes loads out = Inr fxs"
      and one: "\<exists>f \<in> set fxs. \<exists>p t. insertion_edit f p t"
      and all: "\<forall>f \<in> set fxs. (\<exists>p t. insertion_edit f p t) \<or> lacks_insertion f"
      by blast
    from one have "fxs \<noteq> []" by auto
    moreover from all obtain src' where "apply_fixes buf fxs = Inr src'"
      using apply_fixes_mixed by blast
    ultimately show "write_store T n buf = Inr () \<and>
          (\<exists>rc out fxs src'. validator T n buf = Inr (rc, out) \<and> rc \<noteq> 0 \<and>
             parse_fixes loads out = Inr fxs \<and> fxs \<noteq> [] \<and> apply_fixes buf fxs = Inr src')"
      using w v by blast
  qed
  then have "outcome (fix_loop loads T 0 b) = FailedMaxRounds \<and>
             rounds_used (fix_loop loads T 0 b) = 10" for b
    by (rule fix_loop_exhausts) simp
  then show "outcome (check_and_fix loads T src) = FailedMaxRounds"
    and "rounds_used (check_and_fix loads T src) = 10"
    by (simp_all add: check_and_fix_formatted [OF fmt])
next
  assume R: "formatter T src = Inr (frc, formatted) \<and>
    bs 0 = (if frc = 0 \<and> formatted \<noteq> [] then formatted else src) \<and>
    (\<forall>k<10. write_store T (Suc k) (bs k) = Inr () \<and>
       (\<exists>rc out fxs. validator T (Suc k) (bs k) = Inr (rc, out) \<and> rc \<noteq> 0 \<and>
          parse_fixes loads out = Inr fxs \<and> fxs \<noteq> [] \<and>
          apply_fixes (bs k) fxs = Inr (bs (Suc k))))"
  then have "fix_loop loads T 0 (bs 0) =
      \<lparr>outcome = FailedMaxRounds, rounds_used = 10, buffer = bs 10\<rparr>"
    using fix_loop_exhausts_run [of T bs loads 0] by simp
  with R show "check_and_fix loads T src =
      \<lparr>outcome = FailedMaxRounds, rounds_used = 10, buffer = bs 10\<rparr>"
    using check_and_fix_formatted [of T src frc formatted loads] by simp
qed

theorem check_and_fix_round_budget_witness:
  \<open>check_and_fix sample_loads
     (sample_tools 1 ''{"fixes": [{"edit": {"insert": " ", "at": 0}}]}'') ''abc'' =
   \<lparr>outcome = FailedMaxRounds, rounds_used = 10, buffer = ''          abc''\<rparr>\<close>
  using check_and_fix_round_budget
    [of sample_loads \<open>sample_tools 1 ''{"fixes": [{"edit": {"insert": " ", "at": 0}}]}''\<close>
        "''abc''" 0 "''abc''" "\<lambda>k. replicate k CHR '' '' @ ''abc''"]
  by (simp add: sample_tools_def parse_fixes_sample_edit apply_fixes_prepend
      replicate_append_same eval_nat_numeral)

subsection \<open>No fixes at all\<close>

text \<open>
  Claim C5 says that when the validator rejects and the parser extracts zero edits from
  its output, the controller ends in that round with \<open>FailedNoFixes\<close>, so that a
  validator which always rejects with zero edits ends the run after round 1 and never
  with \<open>FailedMaxRounds\<close>. The code tests the list of fix records, not the edits in it:
  a validator whose output always carries one fix record with a message and no edit
  offers zero edits (the first loop of \<^verbatim>\<open>apply_fixes\<close> collects nothing), and the
  controller runs all 10 rounds and ends with \<open>FailedMaxRounds\<close>.
\<close>

theorem fix_records_without_edits_counterexample:
  \<open>parse_fixes sample_loads ''{"fixes": [{"message": "unused variable"}]}'' =
     Inr [JDict [(''message'', JStr ''unused variable'')]] \<and>
   collect_inserts [JDict [(''message'', JStr ''unused variable'')]] [] = Inr [] \<and>
   check_and_fix sample_loads
     (sample_tools 1 ''{"fixes": [{"message": "unused variable"}]}'') ''fn main'' =
     \<lparr>outcome = FailedMaxRounds, rounds_used = 10, buffer = ''fn main''\<rparr>\<close>
proof -
  have skip: "apply_fixes ''fn main'' [JDict [(''message'', JStr ''unused variable'')]] =
      Inr ''fn main''"
    by (simp add: apply_fixes_lacks_insertion lacks_insertion_def)
  have \<open>fix_loop sample_loads
      (sample_tools 1 ''{"fixes": [{"message": "unused variable"}]}'') 0 ''fn main'' =
      \<lparr>outcome = FailedMaxRounds, rounds_used = 10, buffer = ''fn main''\<rparr>\<close>
    using fix_loop_exhausts_run
      [of \<open>sample_tools 1 ''{"fixes": [{"message": "unused variable"}]}''\<close>
          "\<lambda>k. ''fn main''" sample_loads 0]
    by (simp add: sample_tools_def parse_fixes_sample_message skip)
  moreover have "collect_inserts [JDict [(''message'', JStr ''unused variable'')]] [] = Inr []"
    by (rule collect_inserts_lacks_insertion) (simp add: lacks_insertion_def)
  ultimately show ?thesis
    by (simp add: check_and_fix_def sample_tools_def parse_fixes_sample_message)
qed

text \<open>
  Claim C5, amended. If in a round the write succeeds, the validator exits non-zero and
  the parser extracts an empty list of fix records from its output \<open>out\<close>, the loop ends
  in that round with \<open>FailedNoFixes out\<close>, the validator's raw output. In particular,
  when the formatter can be run and in round 1 the validator rejects with no fix record,
  as a validator that always rejects with no fix record does, the controller ends with
  \<open>FailedNoFixes\<close> of that output after one round, and not with \<open>FailedMaxRounds\<close>.
\<close>

theorem fix_loop_no_fixes:
  "(rounds < 10 \<and> write_store T (Suc rounds) src = Inr () \<and>
    validator T (Suc rounds) src = Inr (rc, out) \<and> rc \<noteq> 0 \<and>
    parse_fixes loads out = Inr [] \<longrightarrow>
    fix_loop loads T rounds src =
      \<lparr>outcome = FailedNoFixes out, rounds_used = Suc rounds, buffer = src\<rparr>) \<and>
   (formatter T src0 = Inr (frc, formatted) \<and>
    b = (if frc = 0 \<and> formatted \<noteq> [] then formatted else src0) \<and>
    write_store T 1 b = Inr () \<and> validator T 1 b = Inr (rc1, out1) \<and> rc1 \<noteq> 0 \<and>
    parse_fixes loads out1 = Inr [] \<longrightarrow>
    check_and_fix loads T src0 =
      \<lparr>outcome = FailedNoFixes out1, rounds_used = 1, buffer = b\<rparr>)"
proof (intro conjI impI)
  assume "rounds < 10 \<and> write_store T (Suc rounds) src = Inr () \<and>
    validator T (Suc rounds) src = Inr (rc, out) \<and> rc \<noteq> 0 \<and>
    parse_fixes loads out = Inr []"
  then show "fix_loop loads T rounds src =
      \<lparr>outcome = FailedNoFixes out, rounds_used = Suc rounds, buffer = src\<rparr>"
    by (subst fix_loop.simps) simp
next
  assume H: "formatter T src0 = Inr (frc, formatted) \<and>
    b = (if frc = 0 \<and> formatted \<noteq> [] then formatted else src0) \<and>
    write_store T 1 b = Inr () \<and> validator T 1 b = Inr (rc1, out1) \<and> rc1 \<noteq> 0 \<and>
    parse_fixes loads out1 = Inr []"
  then have "write_store T 1 b = Inr ()" "validator T 1 b = Inr (rc1, out1)" "rc1 \<noteq> 0"
    "parse_fixes loads out1 = Inr []"
    by blast+
  then have "fix_loop loads T 0 b =
      \<lparr>outcome = FailedNoFixes out1, rounds_used = 1, buffer = b\<rparr>"
    by (subst fix_loop.simps) simp
  moreover from H have "check_and_fix loads T src0 = fix_loop loads T 0 b"
    using check_and_fix_formatted [of T src0 frc formatted loads] by simp
  ultimately show "check_and_fix loads T src0 =
      \<lparr>outcome = FailedNoFixes out1, rounds_used = 1, buffer = b\<rparr>"
    by simp
qed

theorem fix_loop_no_fixes_witness:
  "fix_loop sample_loads (sample_tools 1 ''error: unexpected token'') 3 ''abc'' =
     \<lparr>outcome = FailedNoFixes ''error: unexpected token'', rounds_used = 4, buffer = ''abc''\<rparr> \<and>
   check_and_fix sample_loads (sample_tools 1 ''error: unexpected token'') ''abc'' =
     \<lparr>outcome = FailedNoFixes ''error: unexpected token'', rounds_used = 1, buffer = ''abc''\<rparr>"
  using fix_loop_no_fixes
    [of 3 "sample_tools 1 ''error: unexpected token''" "''abc''" 1
        "''error: unexpected token''" sample_loads "''abc''" 0 "''abc''" "''abc''" 1
        "''error: unexpected token''"]
  by (simp add: sample_tools_def parse_fixes_sample_text)

subsection \<open>Fixes that carry no edit\<close>

text \<open>
  Claim C9 says that whenever no fix of the list carries an \<^verbatim>\<open>edit\<close> object with both
  an \<^verbatim>\<open>insert\<close> and an \<^verbatim>\<open>at\<close> field, \<^verbatim>\<open>apply_fixes\<close> skips every fix silently. It
  does not when the fix is not an object or its \<^verbatim>\<open>edit\<close> is not a container: the fix
  \<^verbatim>\<open>{"edit": null}\<close> raises \<^verbatim>\<open>TypeError\<close> at the test \<^verbatim>\<open>"insert" in edit\<close>, and the
  fix \<^verbatim>\<open>5\<close> raises \<^verbatim>\<open>AttributeError\<close> at \<^verbatim>\<open>f.get\<close>.
\<close>

theorem fix_without_edit_object_counterexample:
  "apply_fixes ''abc'' [JDict [(''edit'', JNull)]] = Inl TypeError \<and>
   apply_fixes ''abc'' [JInt 5] = Inl AttributeError"
  by (simp add: apply_fixes_def fix_insert_def)

text \<open>
  Claim C9, amended. The first loop of \<^verbatim>\<open>apply_fixes\<close> skips a fix exactly when the fix
  is an object whose \<^verbatim>\<open>edit\<close> is absent, or is an object that lacks \<^verbatim>\<open>insert\<close> or
  \<^verbatim>\<open>at\<close>, or is a string or list that does not contain both. When every fix of a list
  is of this kind, \<^verbatim>\<open>apply_fixes\<close> returns the buffer unchanged. When the parser
  extracts such a list, not empty, in a round where the write succeeds and the validator
  rejects, the controller does not end with \<open>FailedNoFixes\<close>: it counts the round and
  goes on with the same buffer. So when the formatter can be run, every write succeeds
  and the validator always rejects while offering only such fixes, the controller ends
  with \<open>FailedMaxRounds\<close> after all 10 rounds, its buffer the one it entered the loop
  with.
\<close>

theorem inapplicable_fixes_exhaust_budget:
  "(fix_insert f = Inr None \<longleftrightarrow> lacks_insertion f) \<and>
   ((\<forall>f \<in> set fxs. lacks_insertion f) \<longrightarrow> apply_fixes src fxs = Inr src) \<and>
   (rounds < 10 \<and> write_store T (Suc rounds) src = Inr () \<and>
    validator T (Suc rounds) src = Inr (rc, out) \<and> rc \<noteq> 0 \<and>
    parse_fixes loads out = Inr fxs \<and> fxs \<noteq> [] \<and> (\<forall>f \<in> set fxs. lacks_insertion f) \<longrightarrow>
    fix_loop loads T rounds src = fix_loop loads T (Suc rounds) src) \<and>
   (formatter T src0 = Inr (frc, formatted) \<and>
    (\<forall>n buf. write_store T n buf = Inr () \<and>
       (\<exists>rc out fxs. validator T n buf = Inr (rc, out) \<and> rc \<noteq> 0 \<and>
          parse_fixes loads out = Inr fxs \<and> fxs \<noteq> [] \<and>
          (\<forall>f \<in> set fxs. lacks_insertion f))) \<longrightarrow>
    check_and_fix loads T src0 =
      \<lparr>outcome = FailedMaxRounds, rounds_used = 10,
        buffer = (if frc = 0 \<and> formatted \<noteq> [] then formatted else src0)\<rparr>)"
proof (intro conjI impI)
  show "fix_insert f = Inr None \<longleftrightarrow> lacks_insertion f"
    by (rule fix_insert_skips_iff)
next
  assume "\<forall>f \<in> set fxs. lacks_insertion f"
  then show "apply_fixes src fxs = Inr src"
    by (rule apply_fixes_lacks_insertion)
next
  assume "rounds < 10 \<and> write_store T (Suc rounds) src = Inr () \<and>
    validator T (Suc rounds) src = Inr (rc, out) \<and> rc \<noteq> 0 \<and>
    parse_fixes loads out = Inr fxs \<and> fxs \<noteq> [] \<and> (\<forall>f \<in> set fxs. lacks_insertion f)"
  then show "fix_loop loads T rounds src = fix_loop loads T (Suc rounds) src"
    by (subst fix_loop.simps) (simp add: apply_fixes_lacks_insertion)
next
  assume H: "formatter T src0 = Inr (frc, formatted) \<and>
    (\<forall>n buf. write_store T n buf = Inr () \<and>
       (\<exists>rc out fxs. validator T n buf = Inr (rc, out) \<and> rc \<noteq> 0 \<and>
          parse_fixes loads out = Inr fxs \<and> fxs \<noteq> [] \<and>
          (\<forall>f \<in> set fxs. lacks_insertion f)))"
  define b where "b = (if frc = 0 \<and> formatted \<noteq> [] then formatted else src0)"
  have "\<forall>k<10. write_store T (Suc k) b = Inr () \<and>
          (\<exists>rc out fxs. validator T (Suc k) b = Inr (rc, out) \<and> rc \<noteq> 0 \<and>
             parse_fixes loads out = Inr fxs \<and> fxs \<noteq> [] \<and> apply_fixes b fxs = Inr b)"
  proof (intro allI impI)
    fix k :: nat
    from H obtain rc out fxs where "write_store T (Suc k) b = Inr ()"
      "validator T (Suc k) b = Inr (rc, out)" "rc \<noteq> 0"
      "parse_fixes loads out = Inr fxs" "fxs \<noteq> []" "\<forall>f \<in> set fxs. lacks_insertion f"
      by blast
    moreover from this(6) have "apply_fixes b fxs = Inr b"
      by (rule apply_fixes_lacks_insertion)
    ultimately show "write_store T (Suc k) b = Inr () \<and>
          (\<exists>rc out fxs. validator T (Suc k) b = Inr (rc, out) \<and> rc \<noteq> 0 \<and>
             parse_fixes loads out = Inr fxs \<and> fxs \<noteq> [] \<and> apply_fixes b fxs = Inr b)"
      by blast
  qed
  then have "fix_loop loads T 0 b = \<lparr>outcome = FailedMaxRounds, rounds_used = 10, buffer = b\<rparr>"
    using fix_loop_exhausts_run [of T "\<lambda>k. b" loads 0] by simp
  with H show "check_and_fix loads T src0 =
      \<lparr>outcome = FailedMaxRounds, rounds_used = 10,
        buffer = (if frc = 0 \<and> formatted \<noteq> [] then formatted else src0)\<rparr>"
    using check_and_fix_formatted [of T src0 frc formatted loads] by (simp add: b_def)
qed

theorem inapplicable_fixes_exhaust_budget_witness:
  \<open>fix_insert (JDict [(''message'', JStr ''unused variable'')]) = Inr None \<and>
   apply_fixes ''abc'' [JDict [(''message'', JStr ''unused variable'')]] = Inr ''abc'' \<and>
   check_and_fix sample_loads
     (sample_tools 1 ''{"fixes": [{"message": "unused variable"}]}'') ''abc'' =
     \<lparr>outcome = FailedMaxRounds, rounds_used = 10, buffer = ''abc''\<rparr>\<close>
  using inapplicable_fixes_exhaust_budget
    [of "JDict [(''message'', JStr ''unused variable'')]"
        "[JDict [(''message'', JStr ''unused variable'')]]" "''abc''" 0
        \<open>sample_tools 1 ''{"fixes": [{"message": "unused variable"}]}''\<close>
        1 \<open>''{"fixes": [{"message": "unused variable"}]}''\<close> sample_loads "''abc''"
        0 "''abc''"]
  by (simp add: sample_tools_def parse_fixes_sample_message lacks_insertion_def)

end
